theory Spec2Isabelle
  imports Main "HOL-Library.Char_ord" "HOL-Library.List_Lexorder"
begin

unbundle bit_operations_syntax

section \<open>The digest: \<^verbatim>\<open>hashlib.sha256(...).hexdigest()\<close>\<close>

text \<open>
  \<^verbatim>\<open>compute_hash\<close> calls the library function SHA-256 (FIPS 180-4). It is written out
  here on 32-bit values held in \<open>int\<close>, every addition reduced modulo \<open>2 ^ 32\<close>, so that
  digests of concrete blocks can be computed inside the logic.
\<close>

definition add32 :: "int \<Rightarrow> int \<Rightarrow> int" where
  "add32 x y = take_bit 32 (x + y)"

definition rotr :: "nat \<Rightarrow> int \<Rightarrow> int" where
  "rotr n x = drop_bit n x OR push_bit (32 - n) (take_bit n x)"

definition Ch :: "int \<Rightarrow> int \<Rightarrow> int \<Rightarrow> int" where
  "Ch x y z = (x AND y) XOR ((x XOR 0xFFFFFFFF) AND z)"

definition Maj :: "int \<Rightarrow> int \<Rightarrow> int \<Rightarrow> int" where
  "Maj x y z = (x AND y) XOR (x AND z) XOR (y AND z)"

definition bsig0 :: "int \<Rightarrow> int" where
  "bsig0 x = rotr 2 x XOR rotr 13 x XOR rotr 22 x"

definition bsig1 :: "int \<Rightarrow> int" where
  "bsig1 x = rotr 6 x XOR rotr 11 x XOR rotr 25 x"

definition ssig0 :: "int \<Rightarrow> int" where
  "ssig0 x = rotr 7 x XOR rotr 18 x XOR drop_bit 3 x"

definition ssig1 :: "int \<Rightarrow> int" where
  "ssig1 x = rotr 17 x XOR rotr 19 x XOR drop_bit 10 x"

type_synonym sha_state = "int \<times> int \<times> int \<times> int \<times> int \<times> int \<times> int \<times> int"

definition sha_K :: "int list" where
  "sha_K = [
     0x428A2F98, 0x71374491, 0xB5C0FBCF, 0xE9B5DBA5,
     0x3956C25B, 0x59F111F1, 0x923F82A4, 0xAB1C5ED5,
     0xD807AA98, 0x12835B01, 0x243185BE, 0x550C7DC3,
     0x72BE5D74, 0x80DEB1FE, 0x9BDC06A7, 0xC19BF174,
     0xE49B69C1, 0xEFBE4786, 0x0FC19DC6, 0x240CA1CC,
     0x2DE92C6F, 0x4A7484AA, 0x5CB0A9DC, 0x76F988DA,
     0x983E5152, 0xA831C66D, 0xB00327C8, 0xBF597FC7,
     0xC6E00BF3, 0xD5A79147, 0x06CA6351, 0x14292967,
     0x27B70A85, 0x2E1B2138, 0x4D2C6DFC, 0x53380D13,
     0x650A7354, 0x766A0ABB, 0x81C2C92E, 0x92722C85,
     0xA2BFE8A1, 0xA81A664B, 0xC24B8B70, 0xC76C51A3,
     0xD192E819, 0xD6990624, 0xF40E3585, 0x106AA070,
     0x19A4C116, 0x1E376C08, 0x2748774C, 0x34B0BCB5,
     0x391C0CB3, 0x4ED8AA4A, 0x5B9CCA4F, 0x682E6FF3,
     0x748F82EE, 0x78A5636F, 0x84C87814, 0x8CC70208,
     0x90BEFFFA, 0xA4506CEB, 0xBEF9A3F7, 0xC67178F2
]"

definition sha_H0 :: "sha_state" where
  "sha_H0 = (
     0x6A09E667, 0xBB67AE85, 0x3C6EF372, 0xA54FF53A,
     0x510E527F, 0x9B05688C, 0x1F83D9AB, 0x5BE0CD19
)"

text \<open>Padding: the byte \<open>0x80\<close>, zero bytes up to 56 modulo 64, the bit length on 8 bytes.\<close>

definition sha_pad :: "int list \<Rightarrow> int list" where
  "sha_pad m = (let l = length m; z = (119 - l mod 64) mod 64; bits = 8 * int l in
     m @ [0x80] @ replicate z 0 @ map (\<lambda>i. take_bit 8 (drop_bit (8 * (7 - i)) bits)) [0..<8])"

fun be_words :: "int list \<Rightarrow> int list" where
  "be_words (a # b # c # d # bs) =
     (push_bit 24 a OR push_bit 16 b OR push_bit 8 c OR d) # be_words bs"
| "be_words _ = []"

fun chunks :: "nat \<Rightarrow> nat \<Rightarrow> 'a list \<Rightarrow> 'a list list" where
  "chunks 0 n xs = []"
| "chunks (Suc k) n xs = take n xs # chunks k n (drop n xs)"

fun schedule :: "nat \<Rightarrow> int list \<Rightarrow> int list" where
  "schedule 0 ws = ws"
| "schedule (Suc k) ws = (let t = length ws in
     schedule k (ws @ [add32 (add32 (ssig1 (ws ! (t - 2))) (ws ! (t - 7)))
                             (add32 (ssig0 (ws ! (t - 15))) (ws ! (t - 16)))]))"

fun sha_round :: "sha_state \<Rightarrow> int \<times> int \<Rightarrow> sha_state" where
  "sha_round (a, b, c, d, e, f, g, h) (k, w) =
     (let t1 = add32 (add32 (add32 h (bsig1 e)) (add32 (Ch e f g) k)) w;
          t2 = add32 (bsig0 a) (Maj a b c)
      in (add32 t1 t2, a, b, c, add32 d t1, e, f, g))"

fun add_state :: "sha_state \<Rightarrow> sha_state \<Rightarrow> sha_state" where
  "add_state (a, b, c, d, e, f, g, h) (a', b', c', d', e', f', g', h') =
     (add32 a a', add32 b b', add32 c c', add32 d d',
      add32 e e', add32 f f', add32 g g', add32 h h')"

fun state_words :: "sha_state \<Rightarrow> int list" where
  "state_words (a, b, c, d, e, f, g, h) = [a, b, c, d, e, f, g, h]"

definition compress :: "sha_state \<Rightarrow> int list \<Rightarrow> sha_state" where
  "compress hs blk = add_state hs (foldl sha_round hs (zip sha_K (schedule 48 blk)))"

definition hex_digit :: "int \<Rightarrow> char" where
  "hex_digit n = ''0123456789abcdef'' ! nat n"

definition hex_word :: "int \<Rightarrow> string" where
  "hex_word w = map (\<lambda>i. hex_digit (take_bit 4 (drop_bit (4 * (7 - i)) w))) [0..<8]"

definition sha256_hexdigest :: "string \<Rightarrow> string" where
  "sha256_hexdigest s = (let p = sha_pad (map of_char s) in
     concat (map hex_word (state_words
       (foldl compress sha_H0 (chunks (length p div 64) 16 (be_words p))))))"

section \<open>Python values and \<^verbatim>\<open>json.dumps\<close>\<close>

text \<open>
  The values a block attribute can hold here: integers, strings, the float
  \<^verbatim>\<open>float('nan')\<close>, lists, tuples and dictionaries with string keys. A dictionary is an
  association list in insertion order. A \<open>char\<close> stands for the code point of the same
  number (below 256). Other floats, booleans, \<^verbatim>\<open>None\<close>, keys that are not strings and
  code points from 256 on are outside the model.
\<close>

datatype pyval =
  PInt int | PStr string | PNaN | PList "pyval list" | PTuple "pyval list"
  | PDict "(string \<times> pyval) list"

fun digits :: "nat \<Rightarrow> string" where
  "digits n = (if n < 10 then [''0123456789'' ! n]
               else digits (n div 10) @ [''0123456789'' ! (n mod 10)])"

declare digits.simps [simp del]

definition int_repr :: "int \<Rightarrow> string" where
  "int_repr i = (if i < 0 then CHR ''-'' # digits (nat (- i)) else digits (nat i))"

text \<open>
  \<^verbatim>\<open>py_encode_basestring_ascii\<close> (\<^verbatim>\<open>ensure_ascii=True\<close>, the default): the backslash,
  the double quote and every character outside \<^verbatim>\<open>' '..'~'\<close> are escaped.
\<close>

definition escape_char :: "char \<Rightarrow> string" where
  "escape_char c =
     (if c = CHR 0x5C then [CHR 0x5C, CHR 0x5C]
      else if c = CHR 0x22 then [CHR 0x5C, CHR 0x22]
      else if c = CHR 0x08 then [CHR 0x5C, CHR ''b'']
      else if c = CHR 0x0C then [CHR 0x5C, CHR ''f'']
      else if c = CHR 0x0A then [CHR 0x5C, CHR ''n'']
      else if c = CHR 0x0D then [CHR 0x5C, CHR ''r'']
      else if c = CHR 0x09 then [CHR 0x5C, CHR ''t'']
      else if (of_char c :: nat) < 0x20 \<or> 0x7E < (of_char c :: nat)
        then [CHR 0x5C, CHR ''u'', CHR ''0'', CHR ''0'',
              hex_digit (int (of_char c div 16)), hex_digit (int (of_char c mod 16))]
      else [c])"

definition encode_basestring_ascii :: "string \<Rightarrow> string" where
  "encode_basestring_ascii s = [CHR 0x22] @ concat (map escape_char s) @ [CHR 0x22]"

fun join :: "string \<Rightarrow> string list \<Rightarrow> string" where
  "join sep [] = []"
| "join sep [x] = x"
| "join sep (x # y # ys) = x @ sep @ join sep (y # ys)"

text \<open>
  \<^verbatim>\<open>json.dumps(obj, sort_keys=sk)\<close> with the default separators \<^verbatim>\<open>', '\<close> and \<^verbatim>\<open>': '\<close>.
  With \<^verbatim>\<open>sort_keys\<close> the items of every dictionary, nested ones too, are written in
  the order of their keys. A tuple is written as a list is, and \<^verbatim>\<open>float('nan')\<close> as
  \<^verbatim>\<open>NaN\<close> (\<^verbatim>\<open>allow_nan\<close> is true by default).
\<close>

fun json_dumps :: "bool \<Rightarrow> pyval \<Rightarrow> string" where
  "json_dumps sk (PInt i) = int_repr i"
| "json_dumps sk (PStr s) = encode_basestring_ascii s"
| "json_dumps sk PNaN = ''NaN''"
| "json_dumps sk (PList xs) = ''['' @ join '', '' (map (json_dumps sk) xs) @ '']''"
| "json_dumps sk (PTuple xs) = ''['' @ join '', '' (map (json_dumps sk) xs) @ '']''"
| "json_dumps sk (PDict kvs) =
     (let items = map (\<lambda>kv. (fst kv, json_dumps sk (snd kv))) kvs;
          items = (if sk then sort_key fst items else items)
      in ''{'' @ join '', '' (map (\<lambda>(k, v). encode_basestring_ascii k @ '': '' @ v) items) @ ''}'')"

text \<open>
  Python's \<^verbatim>\<open>!=\<close> on these values. \<^verbatim>\<open>float('nan')\<close> differs from every value, itself
  included. Two dictionaries are equal when they have the same items, in whatever order:
  \<open>canon\<close> puts the items of every dictionary in key order. A list and a tuple differ.
  Inside a list, tuple or dictionary Python compares an element with itself by identity
  first, so a container holding \<^verbatim>\<open>nan\<close> is equal to itself; the model takes equal
  containers to hold the same element objects.
\<close>

fun canon :: "pyval \<Rightarrow> pyval" where
  "canon (PInt i) = PInt i"
| "canon (PStr s) = PStr s"
| "canon PNaN = PNaN"
| "canon (PList xs) = PList (map canon xs)"
| "canon (PTuple xs) = PTuple (map canon xs)"
| "canon (PDict kvs) = PDict (sort_key fst (map (\<lambda>kv. (fst kv, canon (snd kv))) kvs))"

definition py_ne :: "pyval \<Rightarrow> pyval \<Rightarrow> bool" where
  "py_ne a b \<longleftrightarrow> a = PNaN \<or> b = PNaN \<or> canon a \<noteq> canon b"

section \<open>Transaction and Block\<close>

record Transaction =
  sender :: string
  receiver :: string
  data :: string
  amount :: int
  tx_timestamp :: string

text \<open>\<^verbatim>\<open>Transaction.__init__\<close>; \<open>now\<close> is \<^verbatim>\<open>str(datetime.now())\<close>.\<close>

definition Transaction_init :: "string \<Rightarrow> string \<Rightarrow> string \<Rightarrow> int \<Rightarrow> string \<Rightarrow> Transaction" where
  "Transaction_init s r d a now =
     \<lparr>sender = s, receiver = r, data = d, amount = a, tx_timestamp = now\<rparr>"

text \<open>\<^verbatim>\<open>self.__dict__\<close> of a transaction, in the order the attributes were set.\<close>

definition Transaction_dict :: "Transaction \<Rightarrow> pyval" where
  "Transaction_dict t = PDict [(''sender'', PStr (sender t)), (''receiver'', PStr (receiver t)),
     (''data'', PStr (data t)), (''amount'', PInt (amount t)),
     (''timestamp'', PStr (tx_timestamp t))]"

definition Transaction_str :: "Transaction \<Rightarrow> string" where
  "Transaction_str t = json_dumps False (Transaction_dict t)"

text \<open>
  A block. The attribute \<^verbatim>\<open>hash\<close> does not exist until it is assigned: \<open>None\<close> here.
  The program stores a list in \<^verbatim>\<open>transactions\<close>, the integer 0 or a digest in
  \<^verbatim>\<open>previous_hash\<close> and a digest in \<^verbatim>\<open>hash\<close>; a caller can store any value.
\<close>

record Block =
  index :: int
  transactions :: pyval
  timestamp :: string
  previous_hash :: pyval
  nonce :: int
  hash :: "pyval option"

text \<open>\<^verbatim>\<open>Block.__init__\<close>; \<open>now\<close> is \<^verbatim>\<open>str(datetime.now())\<close>.\<close>

definition Block_init :: "int \<Rightarrow> pyval \<Rightarrow> pyval \<Rightarrow> int \<Rightarrow> string \<Rightarrow> Block" where
  "Block_init i txs ph n now =
     \<lparr>index = i, transactions = txs, timestamp = now, previous_hash = ph, nonce = n, hash = None\<rparr>"

text \<open>\<^verbatim>\<open>self.__dict__\<close> of a block: every attribute it has at the moment of the call.\<close>

definition Block_dict :: "Block \<Rightarrow> pyval" where
  "Block_dict b = PDict ([(''index'', PInt (index b)), (''transactions'', transactions b),
     (''timestamp'', PStr (timestamp b)), (''previous_hash'', previous_hash b),
     (''nonce'', PInt (nonce b))]
     @ (case hash b of None \<Rightarrow> [] | Some h \<Rightarrow> [(''hash'', h)]))"

text \<open>\<^verbatim>\<open>Block.__str__\<close>: the attributes as JSON, in the order they were set.\<close>

definition Block_str :: "Block \<Rightarrow> string" where
  "Block_str b = json_dumps False (Block_dict b)"

definition block_string :: "Block \<Rightarrow> string" where
  "block_string b = json_dumps True (Block_dict b)"

definition compute_hash :: "Block \<Rightarrow> string" where
  "compute_hash b = sha256_hexdigest (block_string b)"

section \<open>Blockchain\<close>

text \<open>Number of zeros as prefix for proof-of-work.\<close>

definition DIFFICULTY :: nat where
  "DIFFICULTY = 3"

record Blockchain =
  unconfirmed_transactions :: "Transaction list"
  chain :: "Block list"

text \<open>
  The exceptions the methods can raise: \<^verbatim>\<open>self.chain[-1]\<close> on an empty chain, and
  reading \<^verbatim>\<open>.hash\<close> of a block that has no such attribute.
\<close>

datatype error = IndexError | AttributeError

text \<open>\<^verbatim>\<open>str.startswith\<close>.\<close>

definition startswith :: "string \<Rightarrow> string \<Rightarrow> bool" where
  "startswith s p = (take (length p) s = p)"

text \<open>
  \<^verbatim>\<open>create_genesis_block\<close>: the digest is computed while the block has no \<^verbatim>\<open>hash\<close>
  attribute, then stored in it.
\<close>

definition create_genesis_block :: "string \<Rightarrow> Blockchain \<Rightarrow> Blockchain" where
  "create_genesis_block now s =
     (let genesis_block =
            Block_init 0 (PList [PDict [(''transaction'', PStr ''Genesis Block'')]]) (PInt 0) 0 now;
          genesis_block = genesis_block\<lparr>hash := Some (PStr (compute_hash genesis_block))\<rparr>
      in s\<lparr>chain := chain s @ [genesis_block]\<rparr>)"

definition Blockchain_init :: "string \<Rightarrow> Blockchain" where
  "Blockchain_init now =
     create_genesis_block now \<lparr>unconfirmed_transactions = [], chain = []\<rparr>"

definition last_block :: "Blockchain \<Rightarrow> error + Block" where
  "last_block s = (case chain s of [] \<Rightarrow> Inl IndexError | _ # _ \<Rightarrow> Inr (last (chain s)))"

text \<open>
  The loop of \<^verbatim>\<open>proof_of_work\<close>. It has no bound: a search that never finds a digest
  with the prefix does not return, which is the value \<open>None\<close>.
\<close>

partial_function (option) pow_while :: "Block \<Rightarrow> string \<Rightarrow> (Block \<times> string) option" where
  "pow_while block computed_hash =
     (if \<not> startswith computed_hash (replicate DIFFICULTY CHR ''0'')
      then pow_while (block\<lparr>nonce := nonce block + 1\<rparr>)
                     (compute_hash (block\<lparr>nonce := nonce block + 1\<rparr>))
      else Some (block, computed_hash))"

text \<open>\<^verbatim>\<open>proof_of_work\<close> returns the digest; the block it has mutated is returned with it.\<close>

definition proof_of_work :: "Block \<Rightarrow> (Block \<times> string) option" where
  "proof_of_work block =
     (let block = block\<lparr>nonce := 0\<rparr>;
          computed_hash = compute_hash block
      in pow_while block computed_hash)"

definition is_valid_proof :: "Block \<Rightarrow> string \<Rightarrow> bool" where
  "is_valid_proof block block_hash =
     (startswith block_hash (replicate DIFFICULTY CHR ''0'') \<and> block_hash = compute_hash block)"

text \<open>
  \<^verbatim>\<open>add_block\<close>: the new chain state and the boolean it returns. The block stored in the
  chain is the argument with its \<^verbatim>\<open>hash\<close> attribute set to the proof.
\<close>

definition add_block :: "Blockchain \<Rightarrow> Block \<Rightarrow> string \<Rightarrow> error + (Blockchain \<times> bool)" where
  "add_block s block prf =
     (case last_block s of
        Inl e \<Rightarrow> Inl e
      | Inr lb \<Rightarrow>
          (case hash lb of
             None \<Rightarrow> Inl AttributeError
           | Some prev \<Rightarrow>
               if py_ne prev (previous_hash block) then Inr (s, False)
               else if \<not> is_valid_proof block prf then Inr (s, False)
               else Inr (s\<lparr>chain := chain s @ [block\<lparr>hash := Some (PStr prf)\<rparr>]\<rparr>, True)))"

definition add_new_transaction :: "Blockchain \<Rightarrow> Transaction \<Rightarrow> Blockchain" where
  "add_new_transaction s transaction =
     s\<lparr>unconfirmed_transactions := unconfirmed_transactions s @ [transaction]\<rparr>"

text \<open>
  \<^verbatim>\<open>json.loads(str(i))\<close> for a pooled transaction \<open>i\<close>: \<^verbatim>\<open>str(i)\<close> is
  \<^verbatim>\<open>json.dumps(i.__dict__)\<close>, and \<^verbatim>\<open>json.loads\<close> reads a dictionary of strings and
  integers back as it was written, keys in the same order.
\<close>

definition loads_str :: "Transaction \<Rightarrow> pyval" where
  "loads_str i = Transaction_dict i"

text \<open>What \<^verbatim>\<open>mine\<close> returns: \<^verbatim>\<open>False\<close> or the index of the new block.\<close>

datatype mine_result = MFalse | MIndex int

text \<open>
  \<^verbatim>\<open>mine\<close>; \<open>now\<close> is the clock reading taken by \<^verbatim>\<open>Block.__init__\<close>. The outer
  \<open>option\<close> is \<open>None\<close> when the proof-of-work search does not return.
\<close>

definition mine :: "string \<Rightarrow> Blockchain \<Rightarrow> (error + (Blockchain \<times> mine_result)) option" where
  "mine now s =
     (if unconfirmed_transactions s = [] then Some (Inr (s, MFalse))
      else case last_block s of
        Inl e \<Rightarrow> Some (Inl e)
      | Inr lb \<Rightarrow>
          (case hash lb of
             None \<Rightarrow> Some (Inl AttributeError)
           | Some lh \<Rightarrow>
               (case proof_of_work (Block_init (index lb + 1)
                        (PList (map loads_str (unconfirmed_transactions s))) lh 0 now) of
                  None \<Rightarrow> None
                | Some (new_block, prf) \<Rightarrow>
                    (case add_block (s\<lparr>unconfirmed_transactions := []\<rparr>) new_block prf of
                       Inl e \<Rightarrow> Some (Inl e)
                     | Inr (s', ok) \<Rightarrow>
                         Some (Inr (s', if ok then MIndex (index new_block) else MFalse))))))"

text \<open>
  The chain states a program can build: a fresh \<^verbatim>\<open>Blockchain()\<close>, then calls of
  \<^verbatim>\<open>add_new_transaction\<close> and calls of \<^verbatim>\<open>mine\<close> that return.
\<close>

inductive reachable :: "Blockchain \<Rightarrow> bool" where
  fresh: "reachable (Blockchain_init now)"
| added: "reachable s \<Longrightarrow> reachable (add_new_transaction s t)"
| mined: "reachable s \<Longrightarrow> mine now s = Some (Inr (s', r)) \<Longrightarrow> reachable s'"

text \<open>The number of zero characters a digest begins with.\<close>

definition leading_zeros :: "string \<Rightarrow> nat" where
  "leading_zeros h = length (takeWhile (\<lambda>c. c = CHR ''0'') h)"


section \<open>A concrete run\<close>

text \<open>
  Clock readings and blocks for which the digests are computed below. The fresh chain is
  created at \<open>ex_genesis_time\<close>; one transaction is submitted and mined at
  \<open>ex_mine_time\<close>, a reading for which the search succeeds at nonce 0.
\<close>

definition ex_genesis_time :: string where
  "ex_genesis_time = ''2026-11-04 17:01:23.456789''"

definition ex_genesis_candidate :: Block where
  "ex_genesis_candidate =
     Block_init 0 (PList [PDict [(''transaction'', PStr ''Genesis Block'')]]) (PInt 0) 0
       ex_genesis_time"

definition ex_genesis_hash :: string where
  "ex_genesis_hash = ''1be0f934c9ec60e2aaf93ec8a7eba0e02509f4f8f010387b4e3d6b8877a4500b''"

definition ex_genesis_rehash :: string where
  "ex_genesis_rehash = ''9db2b0d32c56df44ed3184e2f681c163af7d7fa4b2f04a7f8864a7c0664bfd6e''"

definition ex_chain0 :: Blockchain where
  "ex_chain0 = Blockchain_init ex_genesis_time"

definition ex_tx1 :: Transaction where
  "ex_tx1 = Transaction_init ''A'' ''B'' ''pizza'' 8 ''2026-11-04 17:01:24.500000''"

definition ex_pool1 :: Blockchain where
  "ex_pool1 = add_new_transaction ex_chain0 ex_tx1"

definition ex_mine_time :: string where
  "ex_mine_time = ''2026-11-04 17:01:25.003233''"

definition ex_block1 :: Block where
  "ex_block1 = Block_init 1 (PList [loads_str ex_tx1]) (PStr ex_genesis_hash) 0 ex_mine_time"

definition ex_hash1 :: string where
  "ex_hash1 = ''000c5179ac56f807575899910fbb0012f4a60de56907ccf764559676e5c9f75f''"

definition ex_chain1 :: Blockchain where
  "ex_chain1 = \<lparr>unconfirmed_transactions = [],
                chain = [ex_genesis_candidate\<lparr>hash := Some (PStr ex_genesis_hash)\<rparr>,
                         ex_block1\<lparr>hash := Some (PStr ex_hash1)\<rparr>]\<rparr>"

text \<open>A block whose first two nonces fail and whose third succeeds.\<close>

definition ex_block_search :: Block where
  "ex_block_search = Block_init 1 (PList []) (PInt 0) 0 ''2026-11-04 17:01:26.001306''"

definition ex_hash_search :: string where
  "ex_hash_search = ''000bea5613cf9c1c9477f590c521973bed46744c3189a11274de44a3be75723b''"

text \<open>A block whose digest at nonce 0 begins with four zeros.\<close>

definition ex_block_four :: Block where
  "ex_block_four = Block_init 1 (PList []) (PInt 0) 0 ''2026-11-04 17:01:27.115573''"

definition ex_hash_four :: string where
  "ex_hash_four = ''0000b2658c8a9ec56fb2e0be1f8c90e9692688b1f2b2479dccf5c02880bb001d''"

text \<open>A block of index 7 that links to the genesis block.\<close>

definition ex_block_seven :: Block where
  "ex_block_seven = Block_init 7 (PList []) (PStr ex_genesis_hash) 0 ''2026-11-04 17:01:28.000841''"

definition ex_hash_seven :: string where
  "ex_hash_seven = ''00071818e7df07afb1415572bfff745e9912592b549ef5a2ac241dc38e8cc3a4''"




text \<open>
  A chain whose tip has had \<^verbatim>\<open>float('nan')\<close> stored in its \<^verbatim>\<open>hash\<close> attribute, with one
  pending transaction, and the candidate that \<^verbatim>\<open>mine\<close> builds on it at \<open>ex_nan_time\<close>.
\<close>

definition ex_pool_nan :: Blockchain where
  "ex_pool_nan = \<lparr>unconfirmed_transactions = [ex_tx1],
                   chain = [ex_genesis_candidate\<lparr>hash := Some PNaN\<rparr>]\<rparr>"

definition ex_nan_time :: string where
  "ex_nan_time = ''2026-11-04 17:01:29.011974''"

definition ex_block_nan :: Block where
  "ex_block_nan = Block_init 1 (PList [loads_str ex_tx1]) PNaN 0 ex_nan_time"

definition ex_hash_nan :: string where
  "ex_hash_nan = ''0001c1e61b1ccbd15df86d6e6f9f369e31151fe98740f9a5fae78404c4f13bfb''"

section \<open>Properties of the operations\<close>

lemma startswith_zeros_iff:
  "startswith h (replicate DIFFICULTY CHR ''0'') \<longleftrightarrow> (\<exists>rest. h = ''000'' @ rest)"
proof
  assume "startswith h (replicate DIFFICULTY CHR ''0'')"
  then have "take 3 h = ''000''"
    by (simp add: startswith_def DIFFICULTY_def numeral_3_eq_3)
  then have "h = ''000'' @ drop 3 h"
    by (metis append_take_drop_id)
  then show "\<exists>rest. h = ''000'' @ rest" ..
next
  assume "\<exists>rest. h = ''000'' @ rest"
  then show "startswith h (replicate DIFFICULTY CHR ''0'')"
    by (auto simp: startswith_def DIFFICULTY_def numeral_3_eq_3)
qed

text \<open>
  C4: \<^verbatim>\<open>is_valid_proof(block, claimed_hash)\<close> is true if and only if the claimed hash
  begins with three zero characters and is equal to the digest that \<^verbatim>\<open>compute_hash\<close>
  computes from the block as it is now.
\<close>

theorem is_valid_proof_iff:
  "is_valid_proof block claimed_hash \<longleftrightarrow>
     (\<exists>rest. claimed_hash = ''000'' @ rest) \<and> claimed_hash = compute_hash block"
  by (simp add: is_valid_proof_def startswith_zeros_iff)

subsection \<open>Appending a block\<close>

lemma add_block_pool:
  "add_block s block prf = Inr (s', ok) \<Longrightarrow>
     unconfirmed_transactions s' = unconfirmed_transactions s"
  by (auto simp: add_block_def split: sum.splits option.splits if_splits)

lemma py_ne_self: "py_ne a a \<longleftrightarrow> a = PNaN"
  by (simp add: py_ne_def)

lemma py_ne_PStr: "py_ne (PStr x) v \<longleftrightarrow> v \<noteq> PStr x"
  by (cases v) (auto simp: py_ne_def)

lemma last_block_Inr:
  "chain s \<noteq> [] \<Longrightarrow> last_block s = Inr (last (chain s))"
  by (cases "chain s") (simp_all add: last_block_def)

text \<open>
  C3: on a chain whose tip carries a fingerprint, \<^verbatim>\<open>add_block(block, proof)\<close> returns
  false and leaves the chain state as it was when \<^verbatim>\<open>block.previous_hash\<close> differs from
  the tip's stored hash or \<^verbatim>\<open>is_valid_proof(block, proof)\<close> is false; otherwise it stores
  the proof in \<^verbatim>\<open>block.hash\<close>, appends the block as the new tip and returns true.
  There is no third outcome.
\<close>

theorem add_block_outcomes:
  assumes "chain s \<noteq> []" and "hash (last (chain s)) = Some tip"
  shows "add_block s block prf =
     (if py_ne tip (previous_hash block) \<or> \<not> is_valid_proof block prf
      then Inr (s, False)
      else Inr (s\<lparr>chain := chain s @ [block\<lparr>hash := Some (PStr prf)\<rparr>]\<rparr>, True))"
  using assms by (auto simp: add_block_def last_block_Inr)

text \<open>
  C10: \<^verbatim>\<open>add_block\<close> looks at the linkage and at the proof only. Nothing is asked of
  the index or of the timestamp: any block whose \<^verbatim>\<open>previous_hash\<close> is the tip's stored
  hash and whose proof passes \<^verbatim>\<open>is_valid_proof\<close> is appended, and true is returned.
\<close>

theorem add_block_ignores_index:
  assumes "chain s \<noteq> []" and "hash (last (chain s)) = Some tip"
    and "\<not> py_ne tip (previous_hash block)" and "is_valid_proof block prf"
  shows "add_block s block prf =
           Inr (s\<lparr>chain := chain s @ [block\<lparr>hash := Some (PStr prf)\<rparr>]\<rparr>, True)"
  using assms by (simp add: add_block_def last_block_Inr)

subsection \<open>Mining\<close>

lemma add_block_chain:
  "add_block s block prf = Inr (s', ok) \<Longrightarrow>
     chain s' = (if ok then chain s @ [block\<lparr>hash := Some (PStr prf)\<rparr>] else chain s)"
  by (auto simp: add_block_def split: sum.splits option.splits if_splits)

text \<open>
  C1: when the pending pool is not empty and \<^verbatim>\<open>mine()\<close> returns, the pool is empty
  afterwards, whether \<^verbatim>\<open>add_block\<close> accepted the candidate or not: the pool is cleared
  before \<^verbatim>\<open>add_block\<close> is called, and \<^verbatim>\<open>add_block\<close> never writes to it. When
  \<^verbatim>\<open>mine()\<close> returns \<^verbatim>\<open>False\<close> the chain is as it was: the pooled transactions are in
  no block, and they are gone from the pool.
\<close>

theorem mine_clears_pool:
  assumes "unconfirmed_transactions s \<noteq> []" and "mine now s = Some (Inr (s', r))"
  shows "unconfirmed_transactions s' = [] \<and> (r = MFalse \<longrightarrow> chain s' = chain s)"
proof -
  from assms obtain nb pf ok where
    ab: "add_block (s\<lparr>unconfirmed_transactions := []\<rparr>) nb pf = Inr (s', ok)"
    and r: "r = (if ok then MIndex (index nb) else MFalse)"
    by (auto simp: mine_def split: sum.splits option.splits prod.splits if_splits)
  from add_block_pool [OF ab] have "unconfirmed_transactions s' = []" by simp
  moreover from add_block_chain [OF ab] r have "r = MFalse \<longrightarrow> chain s' = chain s"
    by (cases ok) simp_all
  ultimately show ?thesis by simp
qed

text \<open>
  C7: after a \<^verbatim>\<open>mine()\<close> call that returns the index of a new block, the pending pool
  is empty and the chain is the old chain with one block appended; \<^verbatim>\<open>mine()\<close> on an
  empty pool returns \<^verbatim>\<open>False\<close> and changes nothing.
\<close>

theorem mine_pool_lifecycle:
  "(mine now s = Some (Inr (s', MIndex i)) \<longrightarrow>
      unconfirmed_transactions s' = [] \<and>
      length (chain s') = length (chain s) + 1 \<and>
      (\<exists>b. chain s' = chain s @ [b])) \<and>
   (unconfirmed_transactions s = [] \<longrightarrow> mine now s = Some (Inr (s, MFalse)))"
proof (intro conjI impI)
  assume m: "mine now s = Some (Inr (s', MIndex i))"
  then have ne: "unconfirmed_transactions s \<noteq> []"
    by (auto simp: mine_def)
  from m ne obtain nb pf where
    ab: "add_block (s\<lparr>unconfirmed_transactions := []\<rparr>) nb pf = Inr (s', True)"
    by (auto simp: mine_def split: sum.splits option.splits prod.splits if_splits)
  from add_block_pool [OF ab] show "unconfirmed_transactions s' = []" by simp
  from add_block_chain [OF ab] show "length (chain s') = length (chain s) + 1" by simp
  from add_block_chain [OF ab] show "\<exists>b. chain s' = chain s @ [b]" by simp
next
  assume "unconfirmed_transactions s = []"
  then show "mine now s = Some (Inr (s, MFalse))" by (simp add: mine_def)
qed

subsection \<open>The proof-of-work search\<close>

lemma startswith_leading_zeros:
  "startswith h (replicate n CHR ''0'') \<longleftrightarrow> n \<le> leading_zeros h"
proof (induction h arbitrary: n)
  case Nil
  then show ?case by (auto simp: startswith_def leading_zeros_def)
next
  case (Cons c h)
  show ?case
  proof (cases n)
    case 0
    then show ?thesis by (simp add: startswith_def)
  next
    case (Suc m)
    with Cons [of m] show ?thesis
      by (auto simp: startswith_def leading_zeros_def)
  qed
qed

text \<open>The search from nonce \<open>k\<close> stops at the first nonce from \<open>k\<close> on whose digest has the prefix.\<close>

lemma pow_while_finds:
  assumes "startswith (compute_hash (b\<lparr>nonce := k + int m\<rparr>)) (replicate DIFFICULTY CHR ''0'')"
    and "\<forall>j<m. \<not> startswith (compute_hash (b\<lparr>nonce := k + int j\<rparr>)) (replicate DIFFICULTY CHR ''0'')"
  shows "pow_while (b\<lparr>nonce := k\<rparr>) (compute_hash (b\<lparr>nonce := k\<rparr>)) =
           Some (b\<lparr>nonce := k + int m\<rparr>, compute_hash (b\<lparr>nonce := k + int m\<rparr>))"
  using assms
proof (induction m arbitrary: k)
  case 0
  then show ?case by (subst pow_while.simps) simp
next
  case (Suc m)
  from Suc.prems(2) have first: "\<not> startswith (compute_hash (b\<lparr>nonce := k\<rparr>)) (replicate DIFFICULTY CHR ''0'')"
    by (metis add.right_neutral of_nat_0 zero_less_Suc)
  have a: "startswith (compute_hash (b\<lparr>nonce := (k + 1) + int m\<rparr>)) (replicate DIFFICULTY CHR ''0'')"
    using Suc.prems(1) by (simp add: ac_simps)
  have c: "\<forall>j<m. \<not> startswith (compute_hash (b\<lparr>nonce := (k + 1) + int j\<rparr>)) (replicate DIFFICULTY CHR ''0'')"
  proof (intro allI impI)
    fix j assume "j < m"
    then have "Suc j < Suc m" by simp
    with Suc.prems(2) have "\<not> startswith (compute_hash (b\<lparr>nonce := k + int (Suc j)\<rparr>)) (replicate DIFFICULTY CHR ''0'')"
      by blast
    then show "\<not> startswith (compute_hash (b\<lparr>nonce := (k + 1) + int j\<rparr>)) (replicate DIFFICULTY CHR ''0'')"
      by (simp add: ac_simps)
  qed
  from Suc.IH [OF a c] first show ?case
    by (subst pow_while.simps) (simp add: ac_simps)
qed

text \<open>Whenever the search returns, it has stopped at such a first nonce.\<close>

lemma pow_while_returns_aux:
  assumes "pow_while b0 h0 = Some y"
  shows "h0 = compute_hash b0 \<longrightarrow>
         (\<exists>m. fst y = b0\<lparr>nonce := nonce b0 + int m\<rparr> \<and> snd y = compute_hash (fst y) \<and>
           startswith (snd y) (replicate DIFFICULTY CHR ''0'') \<and>
           (\<forall>j<m. \<not> startswith (compute_hash (b0\<lparr>nonce := nonce b0 + int j\<rparr>))
                      (replicate DIFFICULTY CHR ''0'')))"
  using assms
proof (induction b0 h0 y rule: pow_while.raw_induct [rotated 1, consumes 1])
  case (1 pw block computed_hash y)
  show ?case
  proof (intro impI)
    assume ch: "computed_hash = compute_hash block"
    show "\<exists>m. fst y = block\<lparr>nonce := nonce block + int m\<rparr> \<and> snd y = compute_hash (fst y) \<and>
           startswith (snd y) (replicate DIFFICULTY CHR ''0'') \<and>
           (\<forall>j<m. \<not> startswith (compute_hash (block\<lparr>nonce := nonce block + int j\<rparr>))
                      (replicate DIFFICULTY CHR ''0''))"
    proof (cases "startswith computed_hash (replicate DIFFICULTY CHR ''0'')")
      case True
      with 1(2) have "y = (block, computed_hash)" by simp
      with True ch have "fst y = block\<lparr>nonce := nonce block + int 0\<rparr> \<and>
           snd y = compute_hash (fst y) \<and>
           startswith (snd y) (replicate DIFFICULTY CHR ''0'') \<and>
           (\<forall>j<0. \<not> startswith (compute_hash (block\<lparr>nonce := nonce block + int j\<rparr>))
                      (replicate DIFFICULTY CHR ''0''))"
        by simp
      then show ?thesis by blast
    next
      case False
      let ?nb = "block\<lparr>nonce := nonce block + 1\<rparr>"
      from False 1(2) have "pw ?nb (compute_hash ?nb) = Some y" by simp
      from 1(1) [OF this] obtain m where
        m1: "fst y = ?nb\<lparr>nonce := nonce ?nb + int m\<rparr>" and
        m2: "snd y = compute_hash (fst y)" and
        m3: "startswith (snd y) (replicate DIFFICULTY CHR ''0'')" and
        m4: "\<forall>j<m. \<not> startswith (compute_hash (?nb\<lparr>nonce := nonce ?nb + int j\<rparr>))
                      (replicate DIFFICULTY CHR ''0'')"
        by blast
      have all: "\<forall>j<Suc m. \<not> startswith (compute_hash (block\<lparr>nonce := nonce block + int j\<rparr>))
                      (replicate DIFFICULTY CHR ''0'')"
      proof (intro allI impI)
        fix j assume j: "j < Suc m"
        show "\<not> startswith (compute_hash (block\<lparr>nonce := nonce block + int j\<rparr>))
                      (replicate DIFFICULTY CHR ''0'')"
        proof (cases j)
          case 0
          with False ch show ?thesis by simp
        next
          case (Suc i)
          with j have "i < m" by simp
          with m4 have "\<not> startswith (compute_hash (?nb\<lparr>nonce := nonce ?nb + int i\<rparr>))
                      (replicate DIFFICULTY CHR ''0'')" by blast
          with Suc show ?thesis by (simp add: ac_simps)
        qed
      qed
      from m1 have "fst y = block\<lparr>nonce := nonce block + int (Suc m)\<rparr>"
        by (simp add: ac_simps)
      with all m2 m3 show ?thesis by blast
    qed
  qed
qed

lemma pow_while_returns:
  assumes "pow_while b0 (compute_hash b0) = Some (b', h')"
  obtains m where "b' = b0\<lparr>nonce := nonce b0 + int m\<rparr>" and "h' = compute_hash b'"
    and "startswith h' (replicate DIFFICULTY CHR ''0'')"
    and "\<forall>j<m. \<not> startswith (compute_hash (b0\<lparr>nonce := nonce b0 + int j\<rparr>))
                      (replicate DIFFICULTY CHR ''0'')"
  using pow_while_returns_aux [OF assms] by auto

lemma proof_of_work_returns:
  assumes "proof_of_work b = Some (b', h)"
  obtains m where "b' = b\<lparr>nonce := int m\<rparr>" and "h = compute_hash b'"
    and "startswith h (replicate DIFFICULTY CHR ''0'')"
    and "\<forall>j<m. \<not> startswith (compute_hash (b\<lparr>nonce := int j\<rparr>)) (replicate DIFFICULTY CHR ''0'')"
proof -
  from assms have "pow_while (b\<lparr>nonce := 0\<rparr>) (compute_hash (b\<lparr>nonce := 0\<rparr>)) = Some (b', h)"
    by (simp add: proof_of_work_def Let_def)
  then show thesis
    by (rule pow_while_returns) (use that in simp)
qed

text \<open>
  The search returns exactly when some nonce \<open>0, 1, 2, ...\<close> gives a digest with the prefix.
\<close>

lemma proof_of_work_returns_iff:
  "(\<exists>y. proof_of_work b = Some y) \<longleftrightarrow>
   (\<exists>m. startswith (compute_hash (b\<lparr>nonce := int m\<rparr>)) (replicate DIFFICULTY CHR ''0''))"
proof
  assume "\<exists>y. proof_of_work b = Some y"
  then obtain b' h where "proof_of_work b = Some (b', h)" by auto
  then show "\<exists>m. startswith (compute_hash (b\<lparr>nonce := int m\<rparr>)) (replicate DIFFICULTY CHR ''0'')"
    by (elim proof_of_work_returns) auto
next
  let ?good = "\<lambda>m. startswith (compute_hash (b\<lparr>nonce := int m\<rparr>)) (replicate DIFFICULTY CHR ''0'')"
  assume "\<exists>m. ?good m"
  then obtain m where m: "?good m" and least: "\<forall>j<m. \<not> ?good j"
    using exists_least_iff [of ?good] by blast
  have "pow_while (b\<lparr>nonce := 0\<rparr>) (compute_hash (b\<lparr>nonce := 0\<rparr>)) =
          Some (b\<lparr>nonce := 0 + int m\<rparr>, compute_hash (b\<lparr>nonce := 0 + int m\<rparr>))"
    by (rule pow_while_finds) (use m least in simp_all)
  then show "\<exists>y. proof_of_work b = Some y"
    by (simp add: proof_of_work_def Let_def)
qed

text \<open>
  C5 (as the code has it): whenever \<^verbatim>\<open>proof_of_work(B)\<close> returns, the hash it returns
  begins with at least \<^verbatim>\<open>DIFFICULTY\<close> = 3 zero characters, and \<^verbatim>\<open>is_valid_proof\<close> holds
  of the block, as the search left it, and that hash.
\<close>

theorem proof_of_work_valid:
  assumes "proof_of_work b = Some (b', h)"
  shows "DIFFICULTY \<le> leading_zeros h \<and> (\<exists>rest. h = ''000'' @ rest) \<and> is_valid_proof b' h"
proof -
  from assms obtain m where "h = compute_hash b'"
    and "startswith h (replicate DIFFICULTY CHR ''0'')"
    by (rule proof_of_work_returns)
  moreover from this(2) have "DIFFICULTY \<le> leading_zeros h"
    by (simp add: startswith_leading_zeros)
  moreover from \<open>startswith h (replicate DIFFICULTY CHR ''0'')\<close> have "\<exists>rest. h = ''000'' @ rest"
    by (simp only: startswith_zeros_iff)
  ultimately show ?thesis
    by (simp add: is_valid_proof_def)
qed

text \<open>
  C9: \<^verbatim>\<open>proof_of_work\<close> sets the nonce to 0 first, so the nonce the block came with
  does not matter. When the search returns, the block is the argument with its nonce
  replaced, the nonce is the least non-negative integer whose digest begins with the
  required zeros, and the returned hash is the digest at that nonce.
\<close>

theorem proof_of_work_least_nonce:
  assumes "proof_of_work b = Some (b', h)"
  shows "proof_of_work (b\<lparr>nonce := n0\<rparr>) = Some (b', h) \<and>
         0 \<le> nonce b' \<and> b' = b\<lparr>nonce := nonce b'\<rparr> \<and> h = compute_hash b' \<and>
         startswith h (replicate DIFFICULTY CHR ''0'') \<and>
         (\<forall>k. 0 \<le> k \<and> k < nonce b' \<longrightarrow>
            \<not> startswith (compute_hash (b\<lparr>nonce := k\<rparr>)) (replicate DIFFICULTY CHR ''0''))"
proof -
  from assms obtain m where
    b': "b' = b\<lparr>nonce := int m\<rparr>" and h: "h = compute_hash b'"
    and good: "startswith h (replicate DIFFICULTY CHR ''0'')"
    and least: "\<forall>j<m. \<not> startswith (compute_hash (b\<lparr>nonce := int j\<rparr>)) (replicate DIFFICULTY CHR ''0'')"
    by (rule proof_of_work_returns)
  have reset: "proof_of_work (b\<lparr>nonce := n0\<rparr>) = proof_of_work b"
    by (simp add: proof_of_work_def Let_def)
  have "\<not> startswith (compute_hash (b\<lparr>nonce := k\<rparr>)) (replicate DIFFICULTY CHR ''0'')"
    if "0 \<le> k" and "k < nonce b'" for k
  proof -
    from that b' have "nat k < m" by simp
    with least have "\<not> startswith (compute_hash (b\<lparr>nonce := int (nat k)\<rparr>)) (replicate DIFFICULTY CHR ''0'')"
      by blast
    with that(1) show ?thesis by simp
  qed
  with reset assms b' h good show ?thesis by simp
qed

subsection \<open>Chains built by the program\<close>

lemma mine_steps:
  assumes "unconfirmed_transactions s \<noteq> []" and "mine now s = Some (Inr (s', r))"
  obtains lh n where "chain s \<noteq> []" and "hash (last (chain s)) = Some lh"
    and "s' = (if lh = PNaN then s\<lparr>unconfirmed_transactions := []\<rparr>
               else s\<lparr>unconfirmed_transactions := [], chain := chain s @
                 [\<lparr>index = index (last (chain s)) + 1,
                   transactions = PList (map loads_str (unconfirmed_transactions s)),
                   timestamp = now, previous_hash = lh, nonce = n,
                   hash = Some (PStr (compute_hash
                     \<lparr>index = index (last (chain s)) + 1,
                      transactions = PList (map loads_str (unconfirmed_transactions s)),
                      timestamp = now, previous_hash = lh, nonce = n, hash = None\<rparr>))\<rparr>]\<rparr>)"
    and "r = (if lh = PNaN then MFalse else MIndex (index (last (chain s)) + 1))"
proof -
  have ne: "chain s \<noteq> []"
  proof
    assume "chain s = []"
    with assms show False by (simp add: mine_def last_block_def)
  qed
  then have lb: "last_block s = Inr (last (chain s))" by (rule last_block_Inr)
  from assms lb obtain lh where lh: "hash (last (chain s)) = Some lh"
    by (auto simp: mine_def split: option.splits)
  let ?c = "Block_init (index (last (chain s)) + 1)
              (PList (map loads_str (unconfirmed_transactions s))) lh 0 now"
  from assms lb lh obtain nb pf where pw: "proof_of_work ?c = Some (nb, pf)"
    by (auto simp: mine_def split: option.splits)
  from pw obtain m where nb: "nb = ?c\<lparr>nonce := int m\<rparr>" and pf: "pf = compute_hash nb"
    and good: "startswith pf (replicate DIFFICULTY CHR ''0'')"
    by (rule proof_of_work_returns)
  from pf good have valid: "is_valid_proof nb pf" by (simp add: is_valid_proof_def)
  from nb have fields: "previous_hash nb = lh" "index nb = index (last (chain s)) + 1"
    by (simp_all add: Block_init_def)
  from ne have lb': "last_block (s\<lparr>unconfirmed_transactions := []\<rparr>) = Inr (last (chain s))"
    by (cases "chain s") (simp_all add: last_block_def)
  from lb' lh valid fields have ab:
    "add_block (s\<lparr>unconfirmed_transactions := []\<rparr>) nb pf =
       (if lh = PNaN then Inr (s\<lparr>unconfirmed_transactions := []\<rparr>, False)
        else Inr (s\<lparr>unconfirmed_transactions := [],
                    chain := chain s @ [nb\<lparr>hash := Some (PStr pf)\<rparr>]\<rparr>, True))"
    by (simp add: add_block_def py_ne_self)
  from assms lb lh pw ab fields have
    s': "s' = (if lh = PNaN then s\<lparr>unconfirmed_transactions := []\<rparr>
               else s\<lparr>unconfirmed_transactions := [],
                      chain := chain s @ [nb\<lparr>hash := Some (PStr pf)\<rparr>]\<rparr>)"
    and r: "r = (if lh = PNaN then MFalse else MIndex (index (last (chain s)) + 1))"
    by (auto simp: mine_def split: if_splits)
  from nb pf have "nb\<lparr>hash := Some (PStr pf)\<rparr> =
      \<lparr>index = index (last (chain s)) + 1,
       transactions = PList (map loads_str (unconfirmed_transactions s)),
       timestamp = now, previous_hash = lh, nonce = int m,
       hash = Some (PStr (compute_hash
         \<lparr>index = index (last (chain s)) + 1,
          transactions = PList (map loads_str (unconfirmed_transactions s)),
          timestamp = now, previous_hash = lh, nonce = int m, hash = None\<rparr>))\<rparr>"
    by (simp add: Block_init_def)
  with s' have s'': "s' = (if lh = PNaN then s\<lparr>unconfirmed_transactions := []\<rparr>
               else s\<lparr>unconfirmed_transactions := [], chain := chain s @
                 [\<lparr>index = index (last (chain s)) + 1,
                   transactions = PList (map loads_str (unconfirmed_transactions s)),
                   timestamp = now, previous_hash = lh, nonce = int m,
                   hash = Some (PStr (compute_hash
                     \<lparr>index = index (last (chain s)) + 1,
                      transactions = PList (map loads_str (unconfirmed_transactions s)),
                      timestamp = now, previous_hash = lh, nonce = int m, hash = None\<rparr>))\<rparr>]\<rparr>)"
    by simp
  show thesis by (rule that [OF ne lh s'' r])
qed

text \<open>
  Inside \<^verbatim>\<open>mine\<close> the candidate carries the proof the search has just found and its
  \<^verbatim>\<open>previous_hash\<close> is the tip's \<^verbatim>\<open>hash\<close> object itself, so \<^verbatim>\<open>add_block\<close> rejects it in
  one case only: the tip's \<^verbatim>\<open>hash\<close> is \<^verbatim>\<open>float('nan')\<close>, which differs from itself.
\<close>

lemma mine_nonempty_result:
  assumes "unconfirmed_transactions s \<noteq> []" and "mine now s = Some (Inr (s', r))"
  shows "r = (if hash (last (chain s)) = Some PNaN then MFalse
              else MIndex (index (last (chain s)) + 1))"
  using assms by (elim mine_steps) auto

lemma mine_chain_cases:
  assumes "mine now s = Some (Inr (s', r))"
  shows "chain s' = chain s \<or>
         (\<exists>lh n. chain s \<noteq> [] \<and> hash (last (chain s)) = Some lh \<and>
            chain s' = chain s @
              [\<lparr>index = index (last (chain s)) + 1,
                transactions = PList (map loads_str (unconfirmed_transactions s)),
                timestamp = now, previous_hash = lh, nonce = n,
                hash = Some (PStr (compute_hash
                  \<lparr>index = index (last (chain s)) + 1,
                   transactions = PList (map loads_str (unconfirmed_transactions s)),
                   timestamp = now, previous_hash = lh, nonce = n, hash = None\<rparr>))\<rparr>])"
proof (cases "unconfirmed_transactions s = []")
  case True
  with assms show ?thesis by (simp add: mine_def)
next
  case False
  from False assms show ?thesis
  proof (rule mine_steps)
    fix lh n
    assume "chain s \<noteq> []" and "hash (last (chain s)) = Some lh"
      and "s' = (if lh = PNaN then s\<lparr>unconfirmed_transactions := []\<rparr>
               else s\<lparr>unconfirmed_transactions := [], chain := chain s @
                 [\<lparr>index = index (last (chain s)) + 1,
                   transactions = PList (map loads_str (unconfirmed_transactions s)),
                   timestamp = now, previous_hash = lh, nonce = n,
                   hash = Some (PStr (compute_hash
                     \<lparr>index = index (last (chain s)) + 1,
                      transactions = PList (map loads_str (unconfirmed_transactions s)),
                      timestamp = now, previous_hash = lh, nonce = n, hash = None\<rparr>))\<rparr>]\<rparr>)"
    then show ?thesis by (cases "lh = PNaN") auto
  qed
qed

lemma reachable_invariant:
  assumes "reachable s"
  shows "chain s \<noteq> [] \<and>
         (\<forall>b \<in> set (chain s). hash b = Some (PStr (compute_hash (b\<lparr>hash := None\<rparr>)))) \<and>
         (\<forall>i. Suc i < length (chain s) \<longrightarrow>
            (\<exists>h. hash (chain s ! i) = Some h \<and> previous_hash (chain s ! Suc i) = h) \<and>
            index (chain s ! Suc i) = index (chain s ! i) + 1)"
  using assms
proof (induction rule: reachable.induct)
  case (fresh now)
  show ?case
    by (simp add: Blockchain_init_def create_genesis_block_def Block_init_def)
next
  case (added s t)
  have same: "chain (add_new_transaction s t) = chain s"
    by (simp add: add_new_transaction_def)
  show ?case unfolding same by (rule added.IH)
next
  case (mined s now s' r)
  from mine_chain_cases [OF mined.hyps(2)] show ?case
  proof
    assume same: "chain s' = chain s"
    show ?thesis unfolding same by (rule mined.IH)
  next
    assume "\<exists>lh n. chain s \<noteq> [] \<and> hash (last (chain s)) = Some lh \<and>
            chain s' = chain s @
              [\<lparr>index = index (last (chain s)) + 1,
                transactions = PList (map loads_str (unconfirmed_transactions s)),
                timestamp = now, previous_hash = lh, nonce = n,
                hash = Some (PStr (compute_hash
                  \<lparr>index = index (last (chain s)) + 1,
                   transactions = PList (map loads_str (unconfirmed_transactions s)),
                   timestamp = now, previous_hash = lh, nonce = n, hash = None\<rparr>))\<rparr>]"
    then obtain lh n nb where ne: "chain s \<noteq> []" and lh: "hash (last (chain s)) = Some lh"
      and c': "chain s' = chain s @ [nb]"
      and nb: "previous_hash nb = lh" "index nb = index (last (chain s)) + 1"
              "hash nb = Some (PStr (compute_hash (nb\<lparr>hash := None\<rparr>)))"
      by auto
    from mined.IH have stored:
        "\<forall>b \<in> set (chain s). hash b = Some (PStr (compute_hash (b\<lparr>hash := None\<rparr>)))"
      and linkIH: "\<And>i. Suc i < length (chain s) \<Longrightarrow>
            (\<exists>h. hash (chain s ! i) = Some h \<and> previous_hash (chain s ! Suc i) = h) \<and>
            index (chain s ! Suc i) = index (chain s ! i) + 1"
      by blast+
    have link: "(\<exists>h. hash (chain s' ! i) = Some h \<and> previous_hash (chain s' ! Suc i) = h) \<and>
            index (chain s' ! Suc i) = index (chain s' ! i) + 1"
      if i: "Suc i < length (chain s')" for i
    proof (cases "Suc i < length (chain s)")
      case True
      then have "chain s' ! i = chain s ! i" "chain s' ! Suc i = chain s ! Suc i"
        using c' by (simp_all add: nth_append)
      with linkIH [OF True] show ?thesis by (simp only:)
    next
      case False
      with i c' have eq: "Suc i = length (chain s)" by simp
      with ne have "chain s ! i = last (chain s)"
        by (metis diff_Suc_1 last_conv_nth)
      with eq c' lh nb show ?thesis by (simp add: nth_append)
    qed
    from c' have "chain s' \<noteq> []" by simp
    moreover from stored c' nb(3)
    have "\<forall>b \<in> set (chain s'). hash b = Some (PStr (compute_hash (b\<lparr>hash := None\<rparr>)))"
      by simp
    ultimately show ?thesis using link by blast
  qed
qed

text \<open>
  C6: in every chain built from a fresh \<^verbatim>\<open>Blockchain()\<close> by calls of
  \<^verbatim>\<open>add_new_transaction\<close> and \<^verbatim>\<open>mine()\<close>, at every position \<open>i > 0\<close> the field
  \<^verbatim>\<open>previous_hash\<close> of block \<open>i\<close> is the fingerprint stored in block \<open>i - 1\<close>, which is
  the digest of that block's other fields, and the index of block \<open>i\<close> is the index of
  block \<open>i - 1\<close> plus one.
\<close>

theorem chain_linkage:
  assumes "reachable s" and "0 < i" and "i < length (chain s)"
  shows "(\<exists>h. hash (chain s ! (i - 1)) = Some (PStr h) \<and>
              h = compute_hash ((chain s ! (i - 1))\<lparr>hash := None\<rparr>) \<and>
              previous_hash (chain s ! i) = PStr h) \<and>
         index (chain s ! i) = index (chain s ! (i - 1)) + 1"
proof -
  from assms(2) obtain j where j: "i = Suc j" by (cases i) simp_all
  note inv = reachable_invariant [OF assms(1)]
  from assms(3) j have "chain s ! j \<in> set (chain s)" by simp
  with inv have stored:
    "hash (chain s ! j) = Some (PStr (compute_hash ((chain s ! j)\<lparr>hash := None\<rparr>)))"
    by blast
  from inv assms(3) j obtain h where "hash (chain s ! j) = Some h"
    and "previous_hash (chain s ! Suc j) = h"
    and "index (chain s ! Suc j) = index (chain s ! j) + 1"
    by blast
  with stored j show ?thesis by simp
qed

text \<open>
  C2 (as the code has it): \<^verbatim>\<open>compute_hash\<close> digests every attribute the block has at the
  moment of the call, the attribute \<^verbatim>\<open>hash\<close> included once it exists. The fingerprint
  stored in a block of a chain built by the program is the digest of the block without its
  \<^verbatim>\<open>hash\<close> attribute, and the proof that \<^verbatim>\<open>add_block\<close> stores is the digest of the block
  as it was passed, before the assignment.
\<close>

theorem stored_fingerprint_origin:
  "(reachable s \<and> b \<in> set (chain s) \<longrightarrow> hash b = Some (PStr (compute_hash (b\<lparr>hash := None\<rparr>)))) \<and>
   (add_block s0 block prf = Inr (s', True) \<longrightarrow>
      chain s' = chain s0 @ [block\<lparr>hash := Some (PStr prf)\<rparr>] \<and> prf = compute_hash block)"
proof (intro conjI impI)
  assume "reachable s \<and> b \<in> set (chain s)"
  then show "hash b = Some (PStr (compute_hash (b\<lparr>hash := None\<rparr>)))"
    using reachable_invariant [of s] by blast
next
  assume ab: "add_block s0 block prf = Inr (s', True)"
  from add_block_chain [OF ab] show "chain s' = chain s0 @ [block\<lparr>hash := Some (PStr prf)\<rparr>]"
    by simp
  from ab show "prf = compute_hash block"
    by (auto simp: add_block_def is_valid_proof_def split: sum.splits option.splits if_splits)
qed

subsection \<open>Tampering\<close>


section \<open>The concrete run, computed\<close>

subsection \<open>Digests\<close>

lemma genesis_digest: "compute_hash ex_genesis_candidate = ex_genesis_hash"
  by code_simp

lemma genesis_redigest:
  "compute_hash (ex_genesis_candidate\<lparr>hash := Some (PStr ex_genesis_hash)\<rparr>) = ex_genesis_rehash"
  by code_simp

lemma block1_digest: "compute_hash ex_block1 = ex_hash1"
  by code_simp

lemma search_digest0:
  "\<not> startswith (compute_hash (ex_block_search\<lparr>nonce := 0\<rparr>)) (replicate DIFFICULTY CHR ''0'')"
  by code_simp

lemma search_digest1:
  "\<not> startswith (compute_hash (ex_block_search\<lparr>nonce := 1\<rparr>)) (replicate DIFFICULTY CHR ''0'')"
  by code_simp

lemma search_digest2: "compute_hash (ex_block_search\<lparr>nonce := 2\<rparr>) = ex_hash_search"
  by code_simp

lemma four_digest: "compute_hash ex_block_four = ex_hash_four"
  by code_simp

lemma seven_digest: "compute_hash ex_block_seven = ex_hash_seven"
  by code_simp

lemma ex_prefixes:
  "startswith ex_hash1 (replicate DIFFICULTY CHR ''0'')"
  "startswith ex_hash_search (replicate DIFFICULTY CHR ''0'')"
  "startswith ex_hash_four (replicate DIFFICULTY CHR ''0'')"
  "startswith ex_hash_seven (replicate DIFFICULTY CHR ''0'')"
  "startswith ex_hash_nan (replicate DIFFICULTY CHR ''0'')"
  by code_simp+

lemma ex_rehash_differs: "ex_genesis_rehash \<noteq> ex_genesis_hash"
  by code_simp

lemma ex_four_zeros: "leading_zeros ex_hash_four = 4"
  by code_simp





lemma nan_digest: "compute_hash ex_block_nan = ex_hash_nan"
  by code_simp

subsection \<open>The run\<close>

lemma ex_chain0_eq:
  "ex_chain0 = \<lparr>unconfirmed_transactions = [],
                 chain = [ex_genesis_candidate\<lparr>hash := Some (PStr ex_genesis_hash)\<rparr>]\<rparr>"
  by (simp add: ex_chain0_def Blockchain_init_def create_genesis_block_def Let_def
        ex_genesis_candidate_def [symmetric] genesis_digest)

lemma ex_pool1_eq:
  "ex_pool1 = \<lparr>unconfirmed_transactions = [ex_tx1],
                chain = [ex_genesis_candidate\<lparr>hash := Some (PStr ex_genesis_hash)\<rparr>]\<rparr>"
  by (simp add: ex_pool1_def add_new_transaction_def ex_chain0_eq)

lemma ex_genesis_index: "index ex_genesis_candidate = 0"
  by (simp add: ex_genesis_candidate_def Block_init_def)

lemma ex_block1_search: "proof_of_work ex_block1 = Some (ex_block1, ex_hash1)"
proof -
  have "ex_block1\<lparr>nonce := 0\<rparr> = ex_block1"
    by (simp add: ex_block1_def Block_init_def)
  moreover have "pow_while (ex_block1\<lparr>nonce := 0\<rparr>) (compute_hash (ex_block1\<lparr>nonce := 0\<rparr>)) =
      Some (ex_block1\<lparr>nonce := 0 + int 0\<rparr>, compute_hash (ex_block1\<lparr>nonce := 0 + int 0\<rparr>))"
    by (rule pow_while_finds) (simp_all add: calculation block1_digest ex_prefixes)
  ultimately show ?thesis
    by (simp add: proof_of_work_def Let_def block1_digest)
qed

lemma ex_block1_valid: "is_valid_proof ex_block1 ex_hash1"
  by (simp add: is_valid_proof_def block1_digest ex_prefixes)

lemma ex_block1_fields: "previous_hash ex_block1 = PStr ex_genesis_hash" "index ex_block1 = 1"
  by (simp_all add: ex_block1_def Block_init_def)

lemma ex_add1:
  "add_block (ex_pool1\<lparr>unconfirmed_transactions := []\<rparr>) ex_block1 ex_hash1 = Inr (ex_chain1, True)"
  by (simp add: add_block_def last_block_def ex_pool1_eq ex_block1_valid ex_block1_fields
        ex_chain1_def py_ne_PStr)

lemma ex_mine1: "mine ex_mine_time ex_pool1 = Some (Inr (ex_chain1, MIndex 1))"
proof -
  have cand: "Block_init (index (last (chain ex_pool1)) + 1)
                (PList (map loads_str (unconfirmed_transactions ex_pool1))) (PStr ex_genesis_hash) 0
                ex_mine_time = ex_block1"
    by (simp add: ex_pool1_eq ex_genesis_index ex_block1_def)
  have lb: "last_block ex_pool1 = Inr (last (chain ex_pool1))"
    by (rule last_block_Inr) (simp add: ex_pool1_eq)
  have lh: "hash (last (chain ex_pool1)) = Some (PStr ex_genesis_hash)"
    by (simp add: ex_pool1_eq)
  have ne: "unconfirmed_transactions ex_pool1 \<noteq> []"
    by (simp add: ex_pool1_eq)
  show ?thesis
    by (simp add: mine_def ne lb lh cand ex_block1_search ex_add1 ex_block1_fields)
qed

lemma ex_chain1_reachable: "reachable ex_chain1"
proof -
  have "reachable ex_chain0"
    unfolding ex_chain0_def by (rule reachable.fresh)
  then have "reachable ex_pool1"
    unfolding ex_pool1_def by (rule reachable.added)
  then show ?thesis
    using ex_mine1 by (rule reachable.mined)
qed

lemma ex_search: "proof_of_work ex_block_search = Some (ex_block_search\<lparr>nonce := 2\<rparr>, ex_hash_search)"
proof -
  have "pow_while (ex_block_search\<lparr>nonce := 0\<rparr>) (compute_hash (ex_block_search\<lparr>nonce := 0\<rparr>)) =
          Some (ex_block_search\<lparr>nonce := 0 + int 2\<rparr>, compute_hash (ex_block_search\<lparr>nonce := 0 + int 2\<rparr>))"
  proof (rule pow_while_finds)
    show "startswith (compute_hash (ex_block_search\<lparr>nonce := 0 + int 2\<rparr>)) (replicate DIFFICULTY CHR ''0'')"
      by (simp add: search_digest2 ex_prefixes)
    show "\<forall>j<2. \<not> startswith (compute_hash (ex_block_search\<lparr>nonce := 0 + int j\<rparr>)) (replicate DIFFICULTY CHR ''0'')"
    proof (intro allI impI)
      fix j :: nat assume "j < 2"
      then have "j = 0 \<or> j = 1" by auto
      then show "\<not> startswith (compute_hash (ex_block_search\<lparr>nonce := 0 + int j\<rparr>)) (replicate DIFFICULTY CHR ''0'')"
        using search_digest0 search_digest1 by auto
    qed
  qed
  then show ?thesis
    by (simp add: proof_of_work_def Let_def search_digest2)
qed

lemma ex_four_search: "proof_of_work ex_block_four = Some (ex_block_four, ex_hash_four)"
proof -
  have "ex_block_four\<lparr>nonce := 0\<rparr> = ex_block_four"
    by (simp add: ex_block_four_def Block_init_def)
  moreover have "pow_while (ex_block_four\<lparr>nonce := 0\<rparr>) (compute_hash (ex_block_four\<lparr>nonce := 0\<rparr>)) =
      Some (ex_block_four\<lparr>nonce := 0 + int 0\<rparr>, compute_hash (ex_block_four\<lparr>nonce := 0 + int 0\<rparr>))"
    by (rule pow_while_finds) (simp_all add: calculation four_digest ex_prefixes)
  ultimately show ?thesis
    by (simp add: proof_of_work_def Let_def four_digest)
qed

lemma ex_seven_valid: "is_valid_proof ex_block_seven ex_hash_seven"
  by (simp add: is_valid_proof_def seven_digest ex_prefixes)

lemma ex_nan_search: "proof_of_work ex_block_nan = Some (ex_block_nan, ex_hash_nan)"
proof -
  have "ex_block_nan\<lparr>nonce := 0\<rparr> = ex_block_nan"
    by (simp add: ex_block_nan_def Block_init_def)
  moreover have "pow_while (ex_block_nan\<lparr>nonce := 0\<rparr>) (compute_hash (ex_block_nan\<lparr>nonce := 0\<rparr>)) =
      Some (ex_block_nan\<lparr>nonce := 0 + int 0\<rparr>, compute_hash (ex_block_nan\<lparr>nonce := 0 + int 0\<rparr>))"
    by (rule pow_while_finds) (simp_all add: calculation nan_digest ex_prefixes)
  ultimately show ?thesis
    by (simp add: proof_of_work_def Let_def nan_digest)
qed

text \<open>
  On the chain whose tip holds \<^verbatim>\<open>float('nan')\<close> as its hash, \<^verbatim>\<open>mine\<close> finds a proof,
  clears the pool, and \<^verbatim>\<open>add_block\<close> rejects the candidate: \<^verbatim>\<open>nan != nan\<close>.
\<close>

lemma ex_mine_nan:
  "mine ex_nan_time ex_pool_nan = Some (Inr (ex_pool_nan\<lparr>unconfirmed_transactions := []\<rparr>, MFalse))"
proof -
  have cand: "Block_init (index (last (chain ex_pool_nan)) + 1)
                (PList (map loads_str (unconfirmed_transactions ex_pool_nan))) PNaN 0
                ex_nan_time = ex_block_nan"
    by (simp add: ex_pool_nan_def ex_genesis_index ex_block_nan_def)
  have lb: "last_block ex_pool_nan = Inr (last (chain ex_pool_nan))"
    by (rule last_block_Inr) (simp add: ex_pool_nan_def)
  have lh: "hash (last (chain ex_pool_nan)) = Some PNaN"
    by (simp add: ex_pool_nan_def)
  have ne: "unconfirmed_transactions ex_pool_nan \<noteq> []"
    by (simp add: ex_pool_nan_def)
  have lb': "last_block (ex_pool_nan\<lparr>unconfirmed_transactions := []\<rparr>) =
               Inr (last (chain ex_pool_nan))"
    by (simp add: last_block_def ex_pool_nan_def)
  have "add_block (ex_pool_nan\<lparr>unconfirmed_transactions := []\<rparr>) ex_block_nan ex_hash_nan =
          Inr (ex_pool_nan\<lparr>unconfirmed_transactions := []\<rparr>, False)"
    by (simp add: add_block_def lb' lh py_ne_def)
  then show ?thesis
    by (simp add: mine_def ne lb lh cand ex_nan_search)
qed

subsection \<open>The theorems at the run\<close>

lemma ex_chain0_tip:
  "chain ex_chain0 \<noteq> []" "hash (last (chain ex_chain0)) = Some (PStr ex_genesis_hash)"
  "index (last (chain ex_chain0)) = 0"
  by (simp_all add: ex_chain0_eq ex_genesis_index)

lemma ex_pool1_pending: "unconfirmed_transactions ex_pool1 \<noteq> []"
  by (simp add: ex_pool1_eq)

lemma ex_hashes_differ: "ex_hash_seven \<noteq> ex_hash1"
  by code_simp

theorem mine_clears_pool_witness:
  "unconfirmed_transactions ex_pool_nan \<noteq> [] \<and>
   mine ex_nan_time ex_pool_nan =
     Some (Inr (ex_pool_nan\<lparr>unconfirmed_transactions := []\<rparr>, MFalse)) \<and>
   unconfirmed_transactions (ex_pool_nan\<lparr>unconfirmed_transactions := []\<rparr>) = [] \<and>
   chain (ex_pool_nan\<lparr>unconfirmed_transactions := []\<rparr>) = chain ex_pool_nan \<and>
   unconfirmed_transactions ex_pool1 \<noteq> [] \<and>
   mine ex_mine_time ex_pool1 = Some (Inr (ex_chain1, MIndex 1)) \<and>
   unconfirmed_transactions ex_chain1 = []"
proof -
  have ne: "unconfirmed_transactions ex_pool_nan \<noteq> []"
    by (simp add: ex_pool_nan_def)
  from mine_clears_pool [OF ne ex_mine_nan]
  have "unconfirmed_transactions (ex_pool_nan\<lparr>unconfirmed_transactions := []\<rparr>) = []"
    and "chain (ex_pool_nan\<lparr>unconfirmed_transactions := []\<rparr>) = chain ex_pool_nan"
    by simp_all
  moreover from mine_clears_pool [OF ex_pool1_pending ex_mine1]
  have "unconfirmed_transactions ex_chain1 = []" by simp
  ultimately show ?thesis
    using ne ex_mine_nan ex_pool1_pending ex_mine1 by simp
qed

text \<open>
  The stored fingerprint of the genesis block of the fresh chain is not what
  \<^verbatim>\<open>compute_hash\<close> returns for that block: the stored block has the attribute \<^verbatim>\<open>hash\<close>,
  and \<^verbatim>\<open>compute_hash\<close> digests it with the rest.
\<close>

theorem compute_hash_after_assignment_counterexample:
  "chain (Blockchain_init ex_genesis_time) = [ex_genesis_candidate\<lparr>hash := Some (PStr ex_genesis_hash)\<rparr>] \<and>
   compute_hash ex_genesis_candidate = ex_genesis_hash \<and>
   compute_hash (ex_genesis_candidate\<lparr>hash := Some (PStr ex_genesis_hash)\<rparr>) \<noteq> ex_genesis_hash"
  using ex_chain0_eq genesis_digest genesis_redigest ex_rehash_differs
  by (simp add: ex_chain0_def)

theorem stored_fingerprint_origin_witness:
  "reachable ex_chain1 \<and> ex_block1\<lparr>hash := Some (PStr ex_hash1)\<rparr> \<in> set (chain ex_chain1) \<and>
   hash (ex_block1\<lparr>hash := Some (PStr ex_hash1)\<rparr>) =
     Some (PStr (compute_hash ((ex_block1\<lparr>hash := Some (PStr ex_hash1)\<rparr>)\<lparr>hash := None\<rparr>))) \<and>
   add_block (ex_pool1\<lparr>unconfirmed_transactions := []\<rparr>) ex_block1 ex_hash1 = Inr (ex_chain1, True) \<and>
   chain ex_chain1 =
     chain (ex_pool1\<lparr>unconfirmed_transactions := []\<rparr>) @ [ex_block1\<lparr>hash := Some (PStr ex_hash1)\<rparr>] \<and>
   ex_hash1 = compute_hash ex_block1"
proof -
  have mem: "ex_block1\<lparr>hash := Some (PStr ex_hash1)\<rparr> \<in> set (chain ex_chain1)"
    by (simp add: ex_chain1_def)
  from stored_fingerprint_origin
    [of ex_chain1 "ex_block1\<lparr>hash := Some (PStr ex_hash1)\<rparr>"
        "ex_pool1\<lparr>unconfirmed_transactions := []\<rparr>" ex_block1 ex_hash1 ex_chain1]
    ex_chain1_reachable mem ex_add1
  show ?thesis by blast
qed

theorem add_block_outcomes_witness:
  "chain ex_chain0 \<noteq> [] \<and> hash (last (chain ex_chain0)) = Some (PStr ex_genesis_hash) \<and>
   add_block ex_chain0 ex_block1 ex_hash1 =
     Inr (ex_chain0\<lparr>chain := chain ex_chain0 @ [ex_block1\<lparr>hash := Some (PStr ex_hash1)\<rparr>]\<rparr>, True) \<and>
   add_block ex_chain0 ex_block_search ex_hash_search = Inr (ex_chain0, False) \<and>
   add_block ex_chain0 ex_block1 ex_hash_seven = Inr (ex_chain0, False)"
proof -
  have "py_ne (PStr ex_genesis_hash) (previous_hash ex_block_search)"
    by (simp add: ex_block_search_def Block_init_def py_ne_PStr)
  moreover have "\<not> is_valid_proof ex_block1 ex_hash_seven"
    by (simp add: is_valid_proof_def block1_digest ex_hashes_differ)
  ultimately show ?thesis
    using add_block_outcomes [OF ex_chain0_tip(1,2), of ex_block1 ex_hash1]
      add_block_outcomes [OF ex_chain0_tip(1,2), of ex_block_search ex_hash_search]
      add_block_outcomes [OF ex_chain0_tip(1,2), of ex_block1 ex_hash_seven]
      ex_chain0_tip(1,2) ex_block1_valid ex_block1_fields
    by (simp add: py_ne_PStr)
qed

theorem add_block_ignores_index_witness:
  "chain ex_chain0 \<noteq> [] \<and> hash (last (chain ex_chain0)) = Some (PStr ex_genesis_hash) \<and>
   \<not> py_ne (PStr ex_genesis_hash) (previous_hash ex_block_seven) \<and>
   is_valid_proof ex_block_seven ex_hash_seven \<and>
   index (last (chain ex_chain0)) = 0 \<and> index ex_block_seven = 7 \<and>
   add_block ex_chain0 ex_block_seven ex_hash_seven =
     Inr (ex_chain0\<lparr>chain := chain ex_chain0 @ [ex_block_seven\<lparr>hash := Some (PStr ex_hash_seven)\<rparr>]\<rparr>, True)"
proof -
  have fields: "previous_hash ex_block_seven = PStr ex_genesis_hash" "index ex_block_seven = 7"
    by (simp_all add: ex_block_seven_def Block_init_def)
  from fields(1) have same: "\<not> py_ne (PStr ex_genesis_hash) (previous_hash ex_block_seven)"
    by (simp add: py_ne_PStr)
  from add_block_ignores_index [OF ex_chain0_tip(1,2) same ex_seven_valid]
  show ?thesis
    using ex_chain0_tip fields same ex_seven_valid by simp
qed

theorem mine_pool_lifecycle_witness:
  "mine ex_mine_time ex_pool1 = Some (Inr (ex_chain1, MIndex 1)) \<and>
   unconfirmed_transactions ex_chain1 = [] \<and>
   length (chain ex_pool1) = 1 \<and> length (chain ex_chain1) = 2 \<and>
   unconfirmed_transactions ex_chain0 = [] \<and>
   mine ex_mine_time ex_chain0 = Some (Inr (ex_chain0, MFalse))"
proof -
  have "unconfirmed_transactions ex_chain0 = []" "length (chain ex_pool1) = 1"
    by (simp_all add: ex_chain0_eq ex_pool1_eq)
  then show ?thesis
    using mine_pool_lifecycle [of ex_mine_time ex_pool1 ex_chain1 1]
      mine_pool_lifecycle [of ex_mine_time ex_chain0 ex_chain0 0] ex_mine1
    by simp
qed

text \<open>
  The search on \<open>ex_block_four\<close> returns at nonce 0 a hash with four leading zeros:
  one more than \<^verbatim>\<open>DIFFICULTY\<close>.
\<close>

theorem proof_of_work_exact_count_counterexample:
  "proof_of_work ex_block_four = Some (ex_block_four, ex_hash_four) \<and>
   leading_zeros ex_hash_four = 4 \<and> leading_zeros ex_hash_four \<noteq> DIFFICULTY"
  using ex_four_search ex_four_zeros by (simp add: DIFFICULTY_def)

theorem proof_of_work_valid_witness:
  "proof_of_work ex_block1 = Some (ex_block1, ex_hash1) \<and>
   DIFFICULTY \<le> leading_zeros ex_hash1 \<and> is_valid_proof ex_block1 ex_hash1"
  using proof_of_work_valid [OF ex_block1_search] ex_block1_search by simp

theorem proof_of_work_least_nonce_witness:
  "proof_of_work ex_block_search = Some (ex_block_search\<lparr>nonce := 2\<rparr>, ex_hash_search) \<and>
   proof_of_work (ex_block_search\<lparr>nonce := 41\<rparr>) = Some (ex_block_search\<lparr>nonce := 2\<rparr>, ex_hash_search) \<and>
   ex_hash_search = compute_hash (ex_block_search\<lparr>nonce := 2\<rparr>) \<and>
   \<not> startswith (compute_hash (ex_block_search\<lparr>nonce := 0\<rparr>)) (replicate DIFFICULTY CHR ''0'') \<and>
   \<not> startswith (compute_hash (ex_block_search\<lparr>nonce := 1\<rparr>)) (replicate DIFFICULTY CHR ''0'')"
proof -
  note t = proof_of_work_least_nonce [OF ex_search, of 41]
  from t have "\<not> startswith (compute_hash (ex_block_search\<lparr>nonce := 0\<rparr>)) (replicate DIFFICULTY CHR ''0'')"
    by simp
  moreover from t have "\<not> startswith (compute_hash (ex_block_search\<lparr>nonce := 1\<rparr>)) (replicate DIFFICULTY CHR ''0'')"
    by simp
  ultimately show ?thesis using t ex_search by simp
qed

theorem chain_linkage_witness:
  "reachable ex_chain1 \<and> (0::nat) < 1 \<and> 1 < length (chain ex_chain1) \<and>
   hash (chain ex_chain1 ! 0) = Some (PStr ex_genesis_hash) \<and>
   ex_genesis_hash = compute_hash ((chain ex_chain1 ! 0)\<lparr>hash := None\<rparr>) \<and>
   previous_hash (chain ex_chain1 ! 1) = PStr ex_genesis_hash \<and>
   index (chain ex_chain1 ! 1) = index (chain ex_chain1 ! 0) + 1"
proof -
  have len: "1 < length (chain ex_chain1)" by (simp add: ex_chain1_def)
  have h0: "hash (chain ex_chain1 ! 0) = Some (PStr ex_genesis_hash)" by (simp add: ex_chain1_def)
  from chain_linkage [OF ex_chain1_reachable _ len] h0 len ex_chain1_reachable
  show ?thesis by auto
qed



end
